theory Spec2Isabelle
  imports
    Main
    "HOL-Library.Sublist"
    "HOL-Library.AList"
    "HOL-Library.Multiset"
    "HOL-Library.Char_ord"
    "HOL-Library.List_Lexorder"
begin

section \<open>Python strings\<close>

text \<open>
  The script \<^verbatim>\<open>legacy.py\<close> works on Python \<^verbatim>\<open>str\<close> values. They are modelled as
  \<^typ>\<open>string\<close>, one \<^typ>\<open>char\<close> standing for one code point below 256.
\<close>

text \<open>\<^verbatim>\<open>sub in s\<close> on two strings: \<^verbatim>\<open>sub\<close> occurs in \<^verbatim>\<open>s\<close> as a contiguous run.\<close>

fun py_in :: "string \<Rightarrow> string \<Rightarrow> bool" where
  "py_in sub [] = (sub = [])"
| "py_in sub (c # cs) = (prefix sub (c # cs) \<or> py_in sub cs)"

text \<open>\<^verbatim>\<open>s.startswith(p)\<close>.\<close>

definition startswith :: "string \<Rightarrow> string \<Rightarrow> bool" where
  "startswith s p = prefix p s"

text \<open>
  \<^verbatim>\<open>s.replace(old, new)\<close> for a non-empty \<^verbatim>\<open>old\<close>: the string is scanned from the left;
  where \<^verbatim>\<open>old\<close> starts at the current position it is replaced and the scan goes on
  behind it, otherwise one character is copied.
\<close>

function replace_scan :: "string \<Rightarrow> string \<Rightarrow> string \<Rightarrow> string" where
  "replace_scan old new [] = []"
| "replace_scan old new (c # cs) =
     (if old \<noteq> [] \<and> prefix old (c # cs)
      then new @ replace_scan old new (drop (length old) (c # cs))
      else c # replace_scan old new cs)"
  by pat_completeness auto
termination
  by (relation "measure (\<lambda>(old, new, s). length s)") auto

text \<open>
  \<^verbatim>\<open>s.replace(old, new)\<close>. With an empty \<^verbatim>\<open>old\<close> Python puts \<^verbatim>\<open>new\<close> in front of
  every character and at the end.
\<close>

definition replace :: "string \<Rightarrow> string \<Rightarrow> string \<Rightarrow> string" where
  "replace s old new =
     (if old = [] then new @ concat (map (\<lambda>c. c # new) s) else replace_scan old new s)"

text \<open>
  \<^verbatim>\<open>str.isspace\<close> on one character, for the code points below 256: TAB, LF, VT, FF, CR,
  FS, GS, RS, US, space, NEL and the no-break space.
\<close>

definition isspace :: "char \<Rightarrow> bool" where
  "isspace c = ((of_char c :: nat) \<in> {9, 10, 11, 12, 13, 28, 29, 30, 31, 32, 133, 160})"

text \<open>\<^verbatim>\<open>s.strip()\<close>: whitespace is dropped at both ends.\<close>

definition strip :: "string \<Rightarrow> string" where
  "strip s = rev (dropWhile isspace (rev (dropWhile isspace s)))"

section \<open>Filename derivation (lines 98 to 109 and 122)\<close>

text \<open>Line 98: \<^verbatim>\<open>filename = key.replace(".html", ".md")\<close>.\<close>

definition html_to_md :: "string \<Rightarrow> string" where
  "html_to_md key = replace key ''.html'' ''.md''"

text \<open>Line 100: \<^verbatim>\<open>link = data["feed"]["link"].replace("http", "https")\<close>.\<close>

definition https_link :: "string \<Rightarrow> string" where
  "https_link feed_link = replace feed_link ''http'' ''https''"

text \<open>
  Lines 98 to 101: the name after the suffix rewriting and the two removals, before the
  two tests and the flattening of the slashes.
\<close>

definition stripped_name :: "string \<Rightarrow> string \<Rightarrow> string" where
  "stripped_name feed_link key =
     replace (replace (html_to_md key) feed_link []) (https_link feed_link) []"

text \<open>
  Lines 104 to 109: \<^verbatim>\<open>None\<close> is a \<^verbatim>\<open>continue\<close> (the post is passed over), otherwise the
  file name with every slash turned into a dash.
\<close>

definition filename_of :: "string \<Rightarrow> string \<Rightarrow> string option" where
  "filename_of feed_link key =
     (let filename = stripped_name feed_link key in
      if length (strip filename) = 0 then None
      else if startswith filename ''p-'' then None
      else Some (replace filename ''/'' ''-''))"

text \<open>Line 122: \<^verbatim>\<open>filename.replace(".md", "")\<close>.\<close>

definition slug_of :: "string \<Rightarrow> string" where
  "slug_of filename = replace filename ''.md'' []"

section \<open>Feed entries\<close>

text \<open>
  The entries come from \<^verbatim>\<open>feedparser.parse\<close>; each is a \<^verbatim>\<open>FeedParserDict\<close>. The record
  holds the keys the script reads, \<open>None\<close> for a key that the entry lacks.
  \<^item> \<open>tags\<close> is the list of the \<^verbatim>\<open>term\<close> strings of \<^verbatim>\<open>entry.tags\<close>, in feed order;
  \<^item> \<open>author_detail\<close> and \<open>thr_in_reply_to\<close> are the nested dictionaries
    \<^verbatim>\<open>entry["author_detail"]\<close> and \<^verbatim>\<open>entry["thr_in-reply-to"]\<close>, of which the script reads
    one key (\<^verbatim>\<open>name\<close> and \<^verbatim>\<open>href\<close>): the outer option is the dictionary, the inner one
    that key.
\<close>

record entry =
  link :: "string option"
  href :: "string option"
  tags :: "string list option"
  published :: "string option"
  title :: "string option"
  summary :: "string option"
  author_detail :: "string option option"
  thr_in_reply_to :: "string option option"

text \<open>
  A failed subscript \<^verbatim>\<open>d["k"]\<close> raises \<^verbatim>\<open>KeyError\<close>. A failed attribute access
  \<^verbatim>\<open>d.k\<close> on a \<^verbatim>\<open>FeedParserDict\<close> raises \<^verbatim>\<open>AttributeError\<close>: its \<^verbatim>\<open>__getattr__\<close> turns
  the \<^verbatim>\<open>KeyError\<close> of the lookup into an \<^verbatim>\<open>AttributeError\<close>.
\<close>

datatype error = KeyError string | AttributeError string

definition getitem :: "string \<Rightarrow> 'a option \<Rightarrow> error + 'a" where
  "getitem k v = (case v of None \<Rightarrow> Inl (KeyError k) | Some x \<Rightarrow> Inr x)"

definition getattr :: "string \<Rightarrow> 'a option \<Rightarrow> error + 'a" where
  "getattr k v = (case v of None \<Rightarrow> Inl (AttributeError k) | Some x \<Rightarrow> Inr x)"

text \<open>Sequencing: the first exception raised ends the computation.\<close>

definition bind :: "error + 'a \<Rightarrow> ('a \<Rightarrow> error + 'b) \<Rightarrow> error + 'b" where
  "bind r f = (case r of Inl e \<Rightarrow> Inl e | Inr x \<Rightarrow> f x)"

text \<open>
  \<^verbatim>\<open>entry.category\<close>: a \<^verbatim>\<open>FeedParserDict\<close> answers the key \<^verbatim>\<open>category\<close> with
  \<^verbatim>\<open>self["tags"][0]["term"]\<close>, the term of the first tag, and raises when there is no
  first tag.
\<close>

definition category :: "entry \<Rightarrow> error + string" where
  "category e =
     (case tags e of
        None \<Rightarrow> Inl (AttributeError ''category'')
      | Some [] \<Rightarrow> Inl (AttributeError ''category'')
      | Some (t # ts) \<Rightarrow> Inr t)"

section \<open>Classification (lines 60 to 80)\<close>

datatype verdict = Discard | Comment | Post

text \<open>
  The body of the \<^verbatim>\<open>try\<close>: \<open>Discard\<close> is a \<^verbatim>\<open>continue\<close>, \<open>Comment\<close> the branch that
  appends to \<^verbatim>\<open>comments\<close>, \<open>Post\<close> the branch that stores into \<^verbatim>\<open>posts\<close>.
\<close>

definition classify :: "entry \<Rightarrow> error + verdict" where
  "classify e =
     bind (getattr ''link'' (link e)) (\<lambda>l.
       if py_in ''tag:blogger.com'' l then Inr Discard
       else bind (getitem ''href'' (href e)) (\<lambda>h.
         if py_in ''comments'' h then Inr Discard
         else bind (category e) (\<lambda>c.
           if py_in ''#settings'' c then Inr Discard
           else if py_in ''#comment'' c then Inr Comment
           else Inr Post)))"

text \<open>
  A post is the entry together with the list stored under its key \<^verbatim>\<open>"comments"\<close>.
  \<^verbatim>\<open>posts\<close> is a Python dictionary: it keeps the order in which the keys were first
  inserted, and storing under a key that is present replaces the value in place.
\<close>

type_synonym post = "entry \<times> entry list"

record state =
  posts :: "(string \<times> post) list"
  comments :: "entry list"
  stdout :: "string list"

definition repr :: "string \<Rightarrow> string" where
  "repr k = [CHR 0x27] @ k @ [CHR 0x27]"

text \<open>
  The first loop. Only \<^verbatim>\<open>KeyError\<close> is caught (line 78): the message is printed and the
  loop goes on; any other exception leaves the loop and ends the run. The result is the
  state reached and the exception that ended the loop, if any.
\<close>

fun classify_entries :: "entry list \<Rightarrow> state \<Rightarrow> state \<times> error option" where
  "classify_entries [] st = (st, None)"
| "classify_entries (e # es) st =
     (case classify e of
        Inl (KeyError k) \<Rightarrow>
          classify_entries es (st\<lparr>stdout := stdout st @ [''Error: '' @ repr k]\<rparr>)
      | Inl (AttributeError a) \<Rightarrow> (st, Some (AttributeError a))
      | Inr Discard \<Rightarrow> classify_entries es st
      | Inr Comment \<Rightarrow> classify_entries es (st\<lparr>comments := comments st @ [e]\<rparr>)
      | Inr Post \<Rightarrow>
          (case link e of
             None \<Rightarrow> (st, Some (AttributeError ''link''))
           | Some l \<Rightarrow> classify_entries es (st\<lparr>posts := AList.update l (e, []) (posts st)\<rparr>)))"

section \<open>Correlation of comments and posts (lines 83 to 88)\<close>

definition no_post_warning :: "string \<Rightarrow> string" where
  "no_post_warning t =
     ''Warning: Comment '' @ [CHR 0x27] @ t @ [CHR 0x27] @ '' has no corresponding post!''"

text \<open>The second loop has no \<^verbatim>\<open>try\<close>: every exception ends the run.\<close>

fun attach_comments :: "entry list \<Rightarrow> state \<Rightarrow> state \<times> error option" where
  "attach_comments [] st = (st, None)"
| "attach_comments (c # cs) st =
     (case thr_in_reply_to c of
        None \<Rightarrow> (st, Some (KeyError ''thr_in-reply-to''))
      | Some d \<Rightarrow>
     (case d of
        None \<Rightarrow> (st, Some (KeyError ''href''))
      | Some post_link \<Rightarrow>
          if post_link \<in> fst ` set (posts st)
          then attach_comments cs
                 (st\<lparr>posts := AList.map_entry post_link (\<lambda>(e, cms). (e, cms @ [c])) (posts st)\<rparr>)
          else (case title c of
                  None \<Rightarrow> (st, Some (AttributeError ''title''))
                | Some t \<Rightarrow>
                    attach_comments cs (st\<lparr>stdout := stdout st @ [no_post_warning t]\<rparr>))))"

section \<open>Front matter (lines 111 to 127 and 131)\<close>

definition kind_post :: string where
  "kind_post = ''https://schemas.google.com/blogger/2008/kind#post''"

text \<open>
  Lines 111 to 118: the terms of \<^verbatim>\<open>value.tags\<close>, without those equal to the literal of
  line 115, then \<^verbatim>\<open>tags.append(tag)\<close>.
\<close>

definition tags_of :: "string list \<Rightarrow> string \<Rightarrow> string list" where
  "tags_of terms tag = filter (\<lambda>x. x \<noteq> kind_post) terms @ [tag]"

datatype yaml_value = YStr string | YBool bool | YInt int | YSeq "string list"

text \<open>
  Lines 119 to 127: the dictionary literal, its items in the order in which they are
  written (the order in which Python inserts them).
\<close>

definition frontmatter ::
  "string \<Rightarrow> string \<Rightarrow> string list \<Rightarrow> string \<Rightarrow> (string \<times> yaml_value) list" where
  "frontmatter date filename tags' title' =
     [(''date'', YStr date),
      (''published'', YBool True),
      (''slug'', YStr (slug_of filename)),
      (''tags'', YSeq tags'),
      (''time_to_read'', YInt 5),
      (''title'', YStr title'),
      (''description'', YStr [])]"

text \<open>
  Line 131: \<^verbatim>\<open>yaml.dump(frontmatter)\<close>, PyYAML's function, called with no
  \<^verbatim>\<open>sort_keys\<close> argument. PyYAML then represents a mapping by \<^verbatim>\<open>sorted(mapping.items())\<close>:
  the items are emitted in the order of their keys, which are strings and compare
  character by character on their code points. Each item is the key, a colon and the
  text of the value. How PyYAML writes a value (its quoting of scalars, the block
  sequence) is not modelled: it is the parameter \<open>node\<close>.
\<close>

definition yaml_items :: "(string \<times> yaml_value) list \<Rightarrow> (string \<times> yaml_value) list" where
  "yaml_items d = sort_key fst d"

definition yaml_dump :: "(yaml_value \<Rightarrow> string) \<Rightarrow> (string \<times> yaml_value) list \<Rightarrow> string" where
  "yaml_dump node d = concat (map (\<lambda>(k, v). k @ '':'' @ node v) (yaml_items d))"

section \<open>Rendering (lines 95 to 152)\<close>

text \<open>
  The output directory is an association list from file name to content.
  \<^verbatim>\<open>open(name, "w")\<close> creates the file or empties it, \<^verbatim>\<open>f.write(s)\<close> appends to it. A
  failure of the file system itself is not modelled.
\<close>

type_synonym files = "(string \<times> string) list"

definition fopen :: "string \<Rightarrow> files \<Rightarrow> files" where
  "fopen name fs = AList.update name [] fs"

definition fwrite :: "string \<Rightarrow> string \<Rightarrow> files \<Rightarrow> files" where
  "fwrite name s fs = AList.map_entry name (\<lambda>content. content @ s) fs"

definition nl :: string where
  "nl = [CHR 0x0A]"

definition digit_char :: "nat \<Rightarrow> char" where
  "digit_char d = char_of (48 + d)"

text \<open>The decimal numeral that an f-string writes for a natural number.\<close>

function str_nat :: "nat \<Rightarrow> string" where
  "str_nat n = (if n < 10 then [digit_char n] else str_nat (n div 10) @ [digit_char (n mod 10)])"
  by pat_completeness auto
termination
  by (relation "measure id") auto

definition original_note :: "string \<Rightarrow> string" where
  "original_note key =
     ''*This was originally posted on blogger [here]('' @ key @ '')*.'' @ nl @ nl"

definition comments_heading :: "string \<Rightarrow> nat \<Rightarrow> string" where
  "comments_heading key n =
     ''## '' @ str_nat n @ '' comments captured from [original post]('' @ key
       @ '') on Blogger'' @ nl @ nl"

text \<open>
  Lines 147 to 152, the loop over the attached comments. The result is the directory and
  the exception that ended the loop, if any; what was written before stays written.
\<close>

fun write_comments :: "string \<Rightarrow> entry list \<Rightarrow> files \<Rightarrow> files \<times> error option" where
  "write_comments f [] fs = (fs, None)"
| "write_comments f (c # cs) fs =
     (case author_detail c of
        None \<Rightarrow> (fs, Some (KeyError ''author_detail''))
      | Some d \<Rightarrow>
     (case d of
        None \<Rightarrow> (fs, Some (KeyError ''name''))
      | Some name \<Rightarrow>
     (case published c of
        None \<Rightarrow> (fs, Some (KeyError ''published''))
      | Some p \<Rightarrow>
          let fs1 = fwrite f (''**'' @ name @ '' said on '' @ take 10 p @ ''**'' @ nl @ nl) fs
          in (case summary c of
                None \<Rightarrow> (fs1, Some (KeyError ''summary''))
              | Some s \<Rightarrow> write_comments f cs (fwrite f (nl @ nl) (fwrite f s fs1))))))"

text \<open>
  The body of the loop of line 96 for one item \<^verbatim>\<open>(key, value)\<close> of \<^verbatim>\<open>posts\<close>.
  \<open>feed_link\<close> is \<^verbatim>\<open>data["feed"]["link"]\<close>, \<open>None\<close> when the feed has no such key.
\<close>

definition render_post ::
  "(yaml_value \<Rightarrow> string) \<Rightarrow> string option \<Rightarrow> string \<Rightarrow> bool \<Rightarrow> files \<Rightarrow> string \<times> post
     \<Rightarrow> files \<times> error option" where
  "render_post node feed_link tag show_original fs kv =
     (case kv of (key, val, cms) \<Rightarrow>
     (case feed_link of
        None \<Rightarrow> (fs, Some (KeyError ''link''))
      | Some root \<Rightarrow>
     (case filename_of root key of
        None \<Rightarrow> (fs, None)
      | Some filename \<Rightarrow>
     (case tags val of
        None \<Rightarrow> (fs, Some (AttributeError ''tags''))
      | Some terms \<Rightarrow>
     (case published val of
        None \<Rightarrow> (fs, Some (KeyError ''published''))
      | Some date \<Rightarrow>
     (case title val of
        None \<Rightarrow> (fs, Some (KeyError ''title''))
      | Some t \<Rightarrow>
          let fs1 = fopen filename fs;
              fs2 = fwrite filename (''---'' @ nl) fs1;
              fs3 = fwrite filename
                      (yaml_dump node (frontmatter date filename (tags_of terms tag) t)) fs2;
              fs4 = fwrite filename (''---'' @ nl @ nl) fs3;
              fs5 = (if show_original then fwrite filename (original_note key) fs4 else fs4)
          in (case summary val of
                None \<Rightarrow> (fs5, Some (KeyError ''summary''))
              | Some body \<Rightarrow>
                  let fs6 = fwrite filename body fs5
                  in if cms \<noteq> []
                     then write_comments filename cms
                            (fwrite filename (comments_heading key (length cms))
                              (fwrite filename (nl @ nl @ ''---'' @ nl @ nl) fs6))
                     else (fs6, None))))))))"

fun render_posts ::
  "(yaml_value \<Rightarrow> string) \<Rightarrow> string option \<Rightarrow> string \<Rightarrow> bool \<Rightarrow> (string \<times> post) list \<Rightarrow> files
     \<Rightarrow> files \<times> error option" where
  "render_posts node feed_link tag show_original [] fs = (fs, None)"
| "render_posts node feed_link tag show_original (kv # kvs) fs =
     (case render_post node feed_link tag show_original fs kv of
        (fs', Some err) \<Rightarrow> (fs', Some err)
      | (fs', None) \<Rightarrow> render_posts node feed_link tag show_original kvs fs')"

section \<open>The whole run\<close>

record outcome =
  written :: files
  printed :: "string list"
  raised :: "error option"

text \<open>
  \<^verbatim>\<open>main\<close>: the three loops one after the other. \<open>fs\<close> is the output directory as the
  run finds it. The coloured status lines and the progress bar are left out.
\<close>

definition main ::
  "(yaml_value \<Rightarrow> string) \<Rightarrow> string option \<Rightarrow> entry list \<Rightarrow> files \<Rightarrow> string \<Rightarrow> bool \<Rightarrow> outcome" where
  "main node feed_link entries fs tag show_original =
     (case classify_entries entries \<lparr>posts = [], comments = [], stdout = []\<rparr> of
        (st, Some err) \<Rightarrow> \<lparr>written = fs, printed = stdout st, raised = Some err\<rparr>
      | (st, None) \<Rightarrow>
     (case attach_comments (comments st) st of
        (st', Some err) \<Rightarrow> \<lparr>written = fs, printed = stdout st', raised = Some err\<rparr>
      | (st', None) \<Rightarrow>
     (case render_posts node feed_link tag show_original (posts st') fs of
        (fs', r) \<Rightarrow> \<lparr>written = fs', printed = stdout st', raised = r\<rparr>)))"

section \<open>Notions used in the statements\<close>

text \<open>\<^verbatim>\<open>sep.join(pieces)\<close>: the pieces with \<open>sep\<close> between any two neighbours.\<close>

fun join :: "'a list \<Rightarrow> 'a list list \<Rightarrow> 'a list" where
  "join sep [] = []"
| "join sep [p] = p"
| "join sep (p # q # ps) = p @ sep @ join sep (q # ps)"

text \<open>
  A string cut at the occurrences of \<open>sep\<close> that a scan from the left meets: the pieces
  with \<open>sep\<close> between any two neighbours give the string; no piece but the last contains
  \<open>sep\<close>, even when prolonged by all but the last character of \<open>sep\<close>, so that the \<open>sep\<close>
  behind the piece is the first occurrence from where the piece begins; and the last
  piece does not contain \<open>sep\<close>.
\<close>

definition cut_at :: "string \<Rightarrow> string \<Rightarrow> string list \<Rightarrow> bool" where
  "cut_at sep s ps \<longleftrightarrow>
     sep \<noteq> [] \<and> ps \<noteq> [] \<and> s = join sep ps
     \<and> (\<forall>p\<in>set (butlast ps). \<not> py_in sep (p @ butlast sep))
     \<and> \<not> py_in sep (last ps)"

text \<open>
  The suffix rewriting as the specification words it: a link that ends in \<^verbatim>\<open>.html\<close> gets
  \<^verbatim>\<open>.md\<close> in place of these five characters, any other link stays as it is.
\<close>

definition md_suffix :: "string \<Rightarrow> string" where
  "md_suffix key = (if suffix ''.html'' key then take (length key - 5) key @ ''.md'' else key)"

text \<open>
  The five rules as the specification words them, on an entry with link \<open>l\<close>, alternate
  reference \<open>h\<close> and category terms \<open>terms\<close>: rules 3 and 4 ask for any term.
\<close>

definition claimed_verdict :: "string \<Rightarrow> string \<Rightarrow> string list \<Rightarrow> verdict" where
  "claimed_verdict l h terms =
     (if py_in ''tag:blogger.com'' l then Discard
      else if py_in ''comments'' h then Discard
      else if \<exists>t\<in>set terms. py_in ''#settings'' t then Discard
      else if \<exists>t\<in>set terms. py_in ''#comment'' t then Comment
      else Post)"

text \<open>The key order of the data model of the specification.\<close>

definition claimed_key_order :: "string list" where
  "claimed_key_order =
     [''date'', ''published'', ''slug'', ''tags'', ''time_to_read'', ''title'', ''description'']"

text \<open>All comments attached to some post, post after post.\<close>

definition attached :: "(string \<times> post) list \<Rightarrow> entry list" where
  "attached ps = concat (map (\<lambda>(k, e, cms). cms) ps)"

text \<open>A comment is orphaned when its reply target is the key of no post.\<close>

definition orphaned :: "(string \<times> post) list \<Rightarrow> entry \<Rightarrow> bool" where
  "orphaned ps c =
     (case thr_in_reply_to c of Some (Some l) \<Rightarrow> l \<notin> fst ` set ps | _ \<Rightarrow> True)"

text \<open>The posts as the first loop leaves them: one per key, each under its own link,
  none with a comment yet.\<close>

definition fresh_posts :: "(string \<times> post) list \<Rightarrow> bool" where
  "fresh_posts ps \<longleftrightarrow>
     distinct (map fst ps) \<and> (\<forall>(k, e, cms)\<in>set ps. link e = Some k \<and> cms = [])"

text \<open>Every post is stored under its link and every attached comment replies to it.\<close>

definition replies_match :: "(string \<times> post) list \<Rightarrow> bool" where
  "replies_match ps \<longleftrightarrow>
     (\<forall>(k, e, cms)\<in>set ps.
        link e = Some k \<and> (\<forall>c\<in>set cms. thr_in_reply_to c = Some (Some k)))"

text \<open>The text of one comment in the comments block: the header line, a blank line, the
  body, a blank line.\<close>

definition comment_text :: "string \<Rightarrow> string \<Rightarrow> string \<Rightarrow> string" where
  "comment_text author date body =
     ''**'' @ author @ '' said on '' @ take 10 date @ ''**'' @ nl @ nl @ body @ nl @ nl"

definition rendered_comment :: "entry \<Rightarrow> string option" where
  "rendered_comment c =
     (case (author_detail c, published c, summary c) of
        (Some (Some a), Some p, Some s) \<Rightarrow> Some (comment_text a p s)
      | _ \<Rightarrow> None)"

section \<open>A sample feed\<close>

text \<open>A value for the parameter \<open>node\<close> in the examples: every scalar in plain style, a
  sequence as a block.\<close>

definition plain_node :: "yaml_value \<Rightarrow> string" where
  "plain_node v =
     (case v of
        YStr s \<Rightarrow> '' '' @ s @ nl
      | YBool b \<Rightarrow> (if b then '' true'' else '' false'') @ nl
      | YInt i \<Rightarrow> '' '' @ str_nat (nat i) @ nl
      | YSeq xs \<Rightarrow> nl @ concat (map (\<lambda>x. ''- '' @ x @ nl) xs))"

definition sample_post :: entry where
  "sample_post =
     \<lparr>link = Some ''http://example.com/2010/05/my-post.html'',
      href = Some ''http://www.blogger.com/profile/1'',
      tags = Some [''http://schemas.google.com/blogger/2008/kind#post'', ''travel''],
      published = Some ''2010-05-01T08:00:00Z'',
      title = Some ''My post'',
      summary = Some ''<p>Hello</p>'',
      author_detail = Some (Some ''Russell''),
      thr_in_reply_to = None\<rparr>"

definition sample_comment :: "string \<Rightarrow> string \<Rightarrow> string \<Rightarrow> entry" where
  "sample_comment author date target =
     \<lparr>link = Some ''http://example.com/2010/05/my-post.html?showComment=1'',
      href = Some ''http://www.blogger.com/profile/2'',
      tags = Some [''http://schemas.google.com/blogger/2008/kind#comment''],
      published = Some date,
      title = Some ''Nice'',
      summary = Some ''Nice post'',
      author_detail = Some (Some author),
      thr_in_reply_to = Some (Some target)\<rparr>"

definition alice :: entry where
  "alice = sample_comment ''Alice'' ''2011-01-02T10:00:00Z''
             ''http://example.com/2010/05/my-post.html''"

definition bob :: entry where
  "bob = sample_comment ''Bob'' ''2011-03-04T09:00:00Z''
           ''http://example.com/2010/05/my-post.html''"

definition stray :: entry where
  "stray = sample_comment ''Carol'' ''2011-05-06T07:00:00Z''
             ''http://example.com/2009/01/gone.html''"

section \<open>Facts about the string operations\<close>

lemma py_in_sublist: "py_in sub s \<longleftrightarrow> sublist sub s"
  by (induction s) (auto simp: sublist_Cons_right)

lemma py_in_appendD: "\<not> py_in sub (s @ t) \<Longrightarrow> \<not> py_in sub s"
  unfolding py_in_sublist
  by (metis sublist_append append.right_neutral)

lemma py_in_longerD: "\<not> py_in a s \<Longrightarrow> \<not> py_in (a @ b) s"
  unfolding py_in_sublist
  by (metis sublist_order.order.trans sublist_appendI append_Nil)

lemma replace_scan_absent: "\<not> py_in old s \<Longrightarrow> replace_scan old new s = s"
  by (induction s) auto

lemma replace_absent: "\<not> py_in old s \<Longrightarrow> replace s old new = s"
  by (cases "old = []") (auto simp: replace_def replace_scan_absent py_in_sublist)

text \<open>An occurrence that starts behind the first character of \<open>a\<close> and is a prefix of what
  follows lies inside \<open>a\<close> and the first characters of the next occurrence.\<close>

lemma prefix_overhang:
  assumes "prefix old (a @ old @ b)" "a \<noteq> []"
  shows "sublist old (a @ butlast old)"
proof -
  have "prefix (a @ butlast old) (a @ old @ b)"
    by (simp add: prefix_order.trans[OF prefixeq_butlast])
  moreover have "length old \<le> length (a @ butlast old)"
    using assms(2) by (cases a) auto
  ultimately have "prefix old (a @ butlast old)"
    using assms(1) prefix_length_prefix by blast
  then show ?thesis by (rule prefix_imp_sublist)
qed

text \<open>The scan copies everything in front of the first occurrence, replaces it and goes
  on behind it.\<close>

lemma replace_scan_first:
  assumes "old \<noteq> []" "\<not> py_in old (a @ butlast old)"
  shows "replace_scan old new (a @ old @ b) = a @ new @ replace_scan old new b"
  using assms
proof (induction a)
  case Nil
  then obtain c cs where "old = c # cs" by (cases old) auto
  then show ?case by simp
next
  case (Cons x a)
  have "\<not> prefix old ((x # a) @ old @ b)"
    using prefix_overhang[of old "x # a" b] Cons.prems(2) by (auto simp: py_in_sublist)
  moreover have "\<not> py_in old (a @ butlast old)" using Cons.prems(2) by simp
  ultimately show ?case using Cons by simp
qed

lemma replace_scan_join:
  assumes "old \<noteq> []" "\<forall>p\<in>set ps. \<not> py_in old (p @ butlast old)"
  shows "replace_scan old new (join old ps) = join new ps"
  using assms(2)
proof (induction ps rule: induct_list012)
  case 1
  then show ?case by simp
next
  case (2 p)
  then show ?case by (simp add: replace_scan_absent py_in_appendD)
next
  case (3 p q ps)
  then show ?case using assms(1) by (simp add: replace_scan_first)
qed

lemma join_Nil: "join [] ps = concat ps"
  by (induction ps rule: induct_list012) auto

lemma replace_join:
  assumes "\<forall>p\<in>set ps. \<not> py_in old (p @ butlast old)" "ps \<noteq> []"
  shows "replace (join old ps) old new = join new ps"
proof -
  from assms obtain p where "p \<in> set ps" by (cases ps) auto
  with assms(1) have "\<not> py_in old (p @ butlast old)" by blast
  then have "old \<noteq> []" by (cases "p @ butlast old") auto
  then show ?thesis using assms(1) by (simp add: replace_def replace_scan_join)
qed

lemma all_dropWhile: "(\<forall>x\<in>set (dropWhile P s). P x) \<longleftrightarrow> (\<forall>c\<in>set s. P c)"
  by (induction s) auto

lemma strip_blank: "strip s = [] \<longleftrightarrow> (\<forall>c\<in>set s. isspace c)"
  by (simp add: strip_def dropWhile_eq_Nil_conv all_dropWhile)

section \<open>Filename derivation: the suffix rewriting\<close>

text \<open>
  Claim C9, as stated: step 1 turns the link into \<open>md_suffix\<close> of the link, that is, only a
  trailing \<^verbatim>\<open>.html\<close> becomes \<^verbatim>\<open>.md\<close> and every other character stays. Line 98 calls
  \<^verbatim>\<open>replace\<close>, which rewrites \<^verbatim>\<open>.html\<close> wherever it stands: in the link below the host
  name is rewritten as well.
\<close>

theorem html_to_md_counterexample:
  "html_to_md ''http://my.html5rocks.com/2010/a.html'' = ''http://my.md5rocks.com/2010/a.md''
   \<and> md_suffix ''http://my.html5rocks.com/2010/a.html'' = ''http://my.html5rocks.com/2010/a.md''"
  by (simp add: html_to_md_def replace_def md_suffix_def suffix_def)

text \<open>
  Claim C9, amended: step 1 replaces every occurrence of \<^verbatim>\<open>.html\<close> that a scan from the left
  meets, wherever it stands in the link, with \<^verbatim>\<open>.md\<close>. Hence a link without \<^verbatim>\<open>.html\<close> is
  unchanged, and a link in which \<^verbatim>\<open>.html\<close> occurs only as its suffix has exactly that
  suffix rewritten.
\<close>

theorem html_to_md_every_occurrence:
  "((\<forall>p\<in>set ps. \<not> py_in ''.html'' (p @ ''.htm'')) \<longrightarrow>
        html_to_md (join ''.html'' ps) = join ''.md'' ps)
   \<and> (\<not> py_in ''.html'' (a @ ''.htm'') \<longrightarrow>
        html_to_md (a @ ''.html'') = md_suffix (a @ ''.html''))
   \<and> (\<not> py_in ''.html'' key \<longrightarrow> html_to_md key = key)"
proof -
  have 1: "html_to_md (join ''.html'' ps) = join ''.md'' ps"
    if "\<forall>p\<in>set ps. \<not> py_in ''.html'' (p @ ''.htm'')"
    using replace_scan_join[of "''.html''" ps "''.md''"] that
    by (simp add: html_to_md_def replace_def)
  have 2: "html_to_md (a @ ''.html'') = md_suffix (a @ ''.html'')"
    if "\<not> py_in ''.html'' (a @ ''.htm'')"
    using replace_scan_first[of "''.html''" a "''.md''" "[]"] that
    by (simp add: md_suffix_def suffix_def html_to_md_def replace_def)
  have 3: "html_to_md key = key" if "\<not> py_in ''.html'' key"
    using that by (simp add: html_to_md_def replace_absent)
  show ?thesis using 1 2 3 by blast
qed

theorem html_to_md_every_occurrence_witness:
  "\<not> py_in ''.html'' (''http://example.com/a'' @ ''.htm'')
   \<and> \<not> py_in ''.html'' (''?m=1#c'' @ ''.htm'')
   \<and> \<not> py_in ''.html'' ([] @ ''.htm'')
   \<and> html_to_md ''http://example.com/a.html?m=1#c.html'' = ''http://example.com/a.md?m=1#c.md''
   \<and> \<not> py_in ''.html'' (''http://example.com/2010/05/my-post'' @ ''.htm'')
   \<and> html_to_md ''http://example.com/2010/05/my-post.html''
        = ''http://example.com/2010/05/my-post.md''
   \<and> \<not> py_in ''.html'' ''http://example.com/feed''
   \<and> html_to_md ''http://example.com/feed'' = ''http://example.com/feed''"
  using html_to_md_every_occurrence[of "[''http://example.com/a'', ''?m=1#c'', []]"
      "''http://example.com/2010/05/my-post''" "''http://example.com/feed''"]
  by (simp add: md_suffix_def suffix_def)

section \<open>Cutting a string at the occurrences the scan meets\<close>

lemma not_py_in_butlast: "sep \<noteq> [] \<Longrightarrow> \<not> py_in sep (butlast sep)"
proof
  assume "sep \<noteq> []" and "py_in sep (butlast sep)"
  then have "length sep \<le> length (butlast sep)"
    using sublist_length_le[of sep "butlast sep"] by (simp only: py_in_sublist)
  with \<open>sep \<noteq> []\<close> show False
    by (simp add: length_greater_0_conv[symmetric] del: length_greater_0_conv)
qed

lemma replace_scan_cut:
  assumes "cut_at sep s ps"
  shows "replace_scan sep new s = join new ps"
proof -
  have sep: "sep \<noteq> []" and s: "s = join sep ps" using assms by (simp_all add: cut_at_def)
  have "ps \<noteq> [] \<Longrightarrow> \<forall>p\<in>set (butlast ps). \<not> py_in sep (p @ butlast sep)
      \<Longrightarrow> \<not> py_in sep (last ps) \<Longrightarrow> replace_scan sep new (join sep ps) = join new ps"
  proof (induction ps rule: induct_list012)
    case 1
    then show ?case by simp
  next
    case (2 p)
    then show ?case by (simp add: replace_scan_absent)
  next
    case (3 p q ps)
    then show ?case using sep by (simp add: replace_scan_first)
  qed
  then show ?thesis using assms unfolding s by (simp add: cut_at_def)
qed

lemma replace_cut: "cut_at sep s ps \<Longrightarrow> replace s sep new = join new ps"
  using replace_scan_cut[of sep s ps new] by (simp add: replace_def cut_at_def)

text \<open>Every string has such a cut: the scan itself finds it.\<close>

lemma cut_at_exists: "sep \<noteq> [] \<Longrightarrow> \<exists>ps. cut_at sep s ps"
proof (induction s rule: length_induct)
  case (1 s)
  note sep = \<open>sep \<noteq> []\<close>
  show ?case
  proof (cases s)
    case Nil
    then have "cut_at sep s [[]]" using sep by (simp add: cut_at_def)
    then show ?thesis ..
  next
    case (Cons c cs)
    show ?thesis
    proof (cases "prefix sep s")
      case True
      then obtain r where r: "s = sep @ r" by (auto simp: prefix_def)
      then have "length r < length s" using sep by simp
      with 1 obtain ps where ps: "cut_at sep r ps" by blast
      then obtain q qs where q: "ps = q # qs" by (cases ps) (auto simp: cut_at_def)
      have "cut_at sep s ([] # ps)"
        using ps sep not_py_in_butlast[OF sep] unfolding r q by (simp add: cut_at_def)
      then show ?thesis ..
    next
      case False
      have "length cs < length s" using Cons by simp
      with 1 obtain ps where ps: "cut_at sep cs ps" by blast
      then obtain p rest where p: "ps = p # rest" by (cases ps) (auto simp: cut_at_def)
      show ?thesis
      proof (cases rest)
        case Nil
        then have "cut_at sep s [c # p]"
          using ps False sep unfolding p Cons by (simp add: cut_at_def)
        then show ?thesis ..
      next
        case (Cons q qs)
        have cs: "cs = p @ sep @ join sep (q # qs)"
          using ps unfolding p Cons by (simp add: cut_at_def)
        have "\<not> prefix sep (c # p @ butlast sep)"
        proof
          assume "prefix sep (c # p @ butlast sep)"
          moreover have "prefix (c # p @ butlast sep) (c # p @ sep @ join sep (q # qs))"
            by (simp add: prefix_order.trans[OF prefixeq_butlast])
          ultimately have "prefix sep (c # p @ sep @ join sep (q # qs))"
            by (rule prefix_order.trans)
          then show False using False unfolding \<open>s = c # cs\<close> cs by simp
        qed
        then have "cut_at sep s ((c # p) # rest)"
          using ps sep unfolding p Cons \<open>s = c # cs\<close> by (simp add: cut_at_def)
        then show ?thesis ..
      qed
    qed
  qed
qed

lemma replace_empty: "replace s [] [] = s"
  by (induction s) (simp_all add: replace_def)

lemma https_link_Nil: "https_link root = [] \<longleftrightarrow> root = []"
  by (cases root) (simp_all add: https_link_def replace_def)

section \<open>Filename derivation: removing the site root\<close>

text \<open>
  Claim C6, as stated: every occurrence of the feed's link and of its \<^verbatim>\<open>https\<close> form is
  removed from the post link, wherever it stands. The removal of line 99 works on the
  link as line 98 has rewritten it, and it is one scan from the left. In the first feed
  below the feed's link is a prefix of the post link and stays, with \<^verbatim>\<open>.html\<close> rewritten
  inside it; in the second the removal of one occurrence puts another one together,
  which stays.
\<close>

theorem stripped_name_counterexample:
  "prefix ''http://my.html5rocks.com/'' ''http://my.html5rocks.com/2010/a.html''
   \<and> stripped_name ''http://my.html5rocks.com/'' ''http://my.html5rocks.com/2010/a.html''
        = ''http://my.md5rocks.com/2010/a.md''
   \<and> stripped_name ''http://x.org/'' ''http:/http://x.org//x.org/a.html'' = ''http://x.org/a.md''
   \<and> py_in ''http://x.org/'' (stripped_name ''http://x.org/'' ''http:/http://x.org//x.org/a.html'')"
  by (simp add: stripped_name_def https_link_def html_to_md_def replace_def)

text \<open>
  Claim C6, amended: the feed's link is removed from the post link as line 98 has
  rewritten it: one scan from the left removes each occurrence it meets, wherever it
  stands and not only as a prefix, and goes on behind it; then the \<^verbatim>\<open>https\<close> form of
  line 100 is removed in the same way from what the first removal leaves. An empty
  feed link removes nothing: the name is the rewritten link. In the statement the
  rewritten link is cut at the occurrences of the feed's link that the scan meets into
  the pieces \<open>ps\<close>, and what is left, the pieces put together, is cut at the occurrences
  of the \<^verbatim>\<open>https\<close> form into the pieces \<open>qs\<close>; both cuts exist for every link.
\<close>

theorem stripped_name_pieces:
  "(root = [] \<longrightarrow> stripped_name root key = html_to_md key)
   \<and> (root \<noteq> [] \<longrightarrow>
        (\<exists>ps qs. cut_at root (html_to_md key) ps \<and> cut_at (https_link root) (concat ps) qs))
   \<and> (cut_at root (html_to_md key) ps \<and> cut_at (https_link root) (concat ps) qs \<longrightarrow>
        replace (html_to_md key) root [] = concat ps \<and> stripped_name root key = concat qs)"
proof -
  have "https_link [] = []" by (simp add: https_link_Nil)
  then have 1: "stripped_name root key = html_to_md key" if "root = []"
    using that by (simp add: stripped_name_def replace_empty)
  have 2: "\<exists>ps qs. cut_at root (html_to_md key) ps \<and> cut_at (https_link root) (concat ps) qs"
    if "root \<noteq> []"
  proof -
    from that obtain ps where ps: "cut_at root (html_to_md key) ps"
      using cut_at_exists by blast
    from that have "https_link root \<noteq> []" by (simp add: https_link_Nil)
    then obtain qs where "cut_at (https_link root) (concat ps) qs"
      using cut_at_exists by blast
    with ps show ?thesis by blast
  qed
  have 3: "replace (html_to_md key) root [] = concat ps \<and> stripped_name root key = concat qs"
    if "cut_at root (html_to_md key) ps" "cut_at (https_link root) (concat ps) qs"
    using that by (simp add: stripped_name_def replace_cut join_Nil)
  show ?thesis using 1 2 3 by blast
qed

theorem stripped_name_pieces_witness:
  "stripped_name [] ''http://example.com/2010/a.html'' = ''http://example.com/2010/a.md''
   \<and> cut_at ''http://example.com/''
        (html_to_md ''x/http://example.com/2010/https://example.com/a.html'')
        [''x/'', ''2010/https://example.com/a.md'']
   \<and> cut_at (https_link ''http://example.com/'')
        (concat [''x/'', ''2010/https://example.com/a.md'']) [''x/2010/'', ''a.md'']
   \<and> stripped_name ''http://example.com/''
        ''x/http://example.com/2010/https://example.com/a.html'' = ''x/2010/a.md''
   \<and> cut_at ''http://x.org/'' (html_to_md ''https:/http://x.org//x.org/a.html'')
        [''https:/'', ''/x.org/a.md'']
   \<and> cut_at (https_link ''http://x.org/'') (concat [''https:/'', ''/x.org/a.md''])
        [[], ''a.md'']
   \<and> stripped_name ''http://x.org/'' ''https:/http://x.org//x.org/a.html'' = ''a.md''"
proof -
  have 0: "html_to_md ''http://example.com/2010/a.html'' = ''http://example.com/2010/a.md''"
    by (simp add: html_to_md_def replace_def)
  have e: "stripped_name [] ''http://example.com/2010/a.html'' = ''http://example.com/2010/a.md''"
    using stripped_name_pieces[of "[]" "''http://example.com/2010/a.html''"] 0 by simp
  have h: "https_link ''http://example.com/'' = ''https://example.com/''"
    "https_link ''http://x.org/'' = ''https://x.org/''"
    by (simp_all add: https_link_def replace_def)
  have 1: "cut_at ''http://example.com/''
        (html_to_md ''x/http://example.com/2010/https://example.com/a.html'')
        [''x/'', ''2010/https://example.com/a.md'']"
    by (simp add: cut_at_def html_to_md_def replace_def)
  have 2: "cut_at (https_link ''http://example.com/'')
        (concat [''x/'', ''2010/https://example.com/a.md'']) [''x/2010/'', ''a.md'']"
    unfolding h by (simp add: cut_at_def)
  have 3: "cut_at ''http://x.org/'' (html_to_md ''https:/http://x.org//x.org/a.html'')
        [''https:/'', ''/x.org/a.md'']"
    by (simp add: cut_at_def html_to_md_def replace_def)
  have 4: "cut_at (https_link ''http://x.org/'') (concat [''https:/'', ''/x.org/a.md''])
        [[], ''a.md'']"
    unfolding h by (simp add: cut_at_def)
  have a: "stripped_name ''http://example.com/''
        ''x/http://example.com/2010/https://example.com/a.html'' = ''x/2010/a.md''"
    using stripped_name_pieces[of "''http://example.com/''"
        "''x/http://example.com/2010/https://example.com/a.html''"
        "[''x/'', ''2010/https://example.com/a.md'']" "[''x/2010/'', ''a.md'']"] 1 2
    by simp
  have b: "stripped_name ''http://x.org/'' ''https:/http://x.org//x.org/a.html'' = ''a.md''"
    using stripped_name_pieces[of "''http://x.org/''" "''https:/http://x.org//x.org/a.html''"
        "[''https:/'', ''/x.org/a.md'']" "[[], ''a.md'']"] 3 4
    by simp
  show ?thesis using e 1 2 3 4 a b by simp
qed

text \<open>
  Claim C10, as stated: when the feed's link begins with \<^verbatim>\<open>https\<close>, the variant of line 100
  matches no post link, so that only the feed's link itself is removed. The variant is
  a string like any other: a post link that contains it loses it. Below, the feed's
  link does not occur in the post link at all and the variant is removed.
\<close>

theorem https_link_counterexample:
  "prefix ''https'' ''https://example.com/''
   \<and> py_in (https_link ''https://example.com/'') ''httpss://example.com/2010/a.html''
   \<and> replace (html_to_md ''httpss://example.com/2010/a.html'') ''https://example.com/'' []
        = ''httpss://example.com/2010/a.md''
   \<and> stripped_name ''https://example.com/'' ''httpss://example.com/2010/a.html'' = ''2010/a.md''"
  by (simp add: stripped_name_def https_link_def html_to_md_def replace_def)

text \<open>
  Claim C10, amended: for every feed link the variant is the feed's link with every
  occurrence of \<^verbatim>\<open>http\<close> that a scan from the left meets replaced by \<^verbatim>\<open>https\<close>: cut at
  these occurrences into the pieces \<open>ps\<close>, which every feed link can be, it is the pieces
  with \<^verbatim>\<open>https\<close> between them. When the feed's link begins with \<^verbatim>\<open>https\<close> the variant
  begins with \<^verbatim>\<open>httpss\<close>, and for every post whose name after the removal of the feed's
  link is free of \<^verbatim>\<open>httpss\<close> only the feed's link itself is removed.
\<close>

theorem https_link_variant:
  "https_link root = replace root ''http'' ''https''
   \<and> (\<exists>ps. cut_at ''http'' root ps)
   \<and> (cut_at ''http'' root ps \<longrightarrow> https_link root = join ''https'' ps)
   \<and> (prefix ''https'' root \<longrightarrow>
        prefix ''httpss'' (https_link root)
        \<and> (\<not> py_in ''httpss'' (replace (html_to_md key) root []) \<longrightarrow>
             stripped_name root key = replace (html_to_md key) root []))"
proof -
  have 0: "\<exists>ps. cut_at ''http'' root ps"
    by (rule cut_at_exists) simp
  have 1: "https_link root = join ''https'' ps" if "cut_at ''http'' root ps"
    using that by (simp add: https_link_def replace_cut)
  have 2: "prefix ''httpss'' (https_link root)" if "prefix ''https'' root"
  proof -
    from that obtain r where "root = ''https'' @ r" by (auto simp: prefix_def)
    then show ?thesis by (simp add: https_link_def replace_def)
  qed
  have 3: "stripped_name root key = replace (html_to_md key) root []"
    if "prefix ''https'' root" "\<not> py_in ''httpss'' (replace (html_to_md key) root [])"
  proof -
    from 2[OF that(1)] obtain t where t: "https_link root = ''httpss'' @ t"
      by (auto simp: prefix_def)
    have "\<not> py_in (https_link root) (replace (html_to_md key) root [])"
      unfolding t using that(2) by (rule py_in_longerD)
    then show ?thesis
      unfolding stripped_name_def by (rule replace_absent)
  qed
  show ?thesis using 0 1 2 3 by (simp add: https_link_def)
qed

theorem https_link_variant_witness:
  "cut_at ''http'' ''http://example.com/'' [[], ''://example.com/'']
   \<and> https_link ''http://example.com/'' = ''https://example.com/''
   \<and> prefix ''https'' ''https://example.com/''
   \<and> cut_at ''http'' ''https://example.com/'' [[], ''s://example.com/'']
   \<and> https_link ''https://example.com/'' = ''httpss://example.com/''
   \<and> \<not> py_in ''httpss''
         (replace (html_to_md ''https://example.com/2010/a.html'') ''https://example.com/'' [])
   \<and> stripped_name ''https://example.com/'' ''https://example.com/2010/a.html'' = ''2010/a.md''"
proof -
  have 1: "cut_at ''http'' ''http://example.com/'' [[], ''://example.com/'']"
    "cut_at ''http'' ''https://example.com/'' [[], ''s://example.com/'']"
    by (simp_all add: cut_at_def)
  have p: "prefix ''https'' ''https://example.com/''" by simp
  have r: "replace (html_to_md ''https://example.com/2010/a.html'') ''https://example.com/'' []
      = ''2010/a.md''"
    by (simp add: html_to_md_def replace_def)
  have a: "https_link ''http://example.com/'' = ''https://example.com/''"
    using https_link_variant[of "''http://example.com/''" "[[], ''://example.com/'']",
        THEN conjunct2] 1(1)
    by simp
  have b: "https_link ''https://example.com/'' = ''httpss://example.com/''
      \<and> stripped_name ''https://example.com/'' ''https://example.com/2010/a.html''
          = ''2010/a.md''"
    using https_link_variant[of "''https://example.com/''" "[[], ''s://example.com/'']"
        "''https://example.com/2010/a.html''", THEN conjunct2] 1(2) p
    unfolding r by simp
  show ?thesis using 1 p a b unfolding r by simp
qed

section \<open>Skipped posts\<close>

text \<open>
  Claim C7: a post whose name after the suffix rewriting and the two removals, before the
  slashes are flattened, consists of whitespace only (or is empty) or starts with
  \<^verbatim>\<open>p-\<close> is passed over: no file name is derived, nothing is written and nothing is
  raised, whatever the entry holds.
\<close>

theorem skipped_posts:
  assumes "(\<forall>c\<in>set (stripped_name root key). isspace c) \<or> prefix ''p-'' (stripped_name root key)"
  shows "filename_of root key = None
    \<and> render_post node (Some root) tag show_original fs (key, val, cms) = (fs, None)"
  using assms
  by (auto simp: filename_of_def render_post_def Let_def strip_blank startswith_def)

theorem skipped_posts_witness:
  "stripped_name ''http://example.com/'' ''http://example.com/p-about.html'' = ''p-about.md''
   \<and> prefix ''p-'' (stripped_name ''http://example.com/'' ''http://example.com/p-about.html'')
   \<and> filename_of ''http://example.com/'' ''http://example.com/p-about.html'' = None
   \<and> render_post plain_node (Some ''http://example.com/'') ''legacy-blogger'' True []
        (''http://example.com/p-about.html'', sample_post, [alice]) = ([], None)
   \<and> stripped_name ''http://example.com/'' ''http://example.com/'' = []
   \<and> filename_of ''http://example.com/'' ''http://example.com/'' = None"
proof -
  have 1: "stripped_name ''http://example.com/'' ''http://example.com/p-about.html''
      = ''p-about.md''"
    by (simp add: stripped_name_def html_to_md_def https_link_def replace_def)
  have 2: "stripped_name ''http://example.com/'' ''http://example.com/'' = []"
    by (simp add: stripped_name_def html_to_md_def https_link_def replace_def)
  have p: "(\<forall>c\<in>set (stripped_name ''http://example.com/'' ''http://example.com/p-about.html'').
             isspace c)
      \<or> prefix ''p-'' (stripped_name ''http://example.com/'' ''http://example.com/p-about.html'')"
    unfolding 1 by simp
  have q: "(\<forall>c\<in>set (stripped_name ''http://example.com/'' ''http://example.com/''). isspace c)
      \<or> prefix ''p-'' (stripped_name ''http://example.com/'' ''http://example.com/'')"
    unfolding 2 by simp
  show ?thesis
    using skipped_posts[OF p, of plain_node "''legacy-blogger''" True "[]" sample_post "[alice]"]
      skipped_posts[OF q, of plain_node "''legacy-blogger''" True "[]" sample_post "[]"]
    unfolding 1 2 by simp
qed

section \<open>Front matter\<close>

text \<open>
  Lines 111 to 118 keep the category terms in source order, drop those equal to the
  literal of line 115 and append the tag of the user; nothing is deduplicated.
\<close>

lemma tags_of_filter:
  "tags_of terms tag
     = filter (\<lambda>x. x \<noteq> ''https://schemas.google.com/blogger/2008/kind#post'') terms @ [tag]
   \<and> last (tags_of terms tag) = tag
   \<and> subseq (butlast (tags_of terms tag)) terms
   \<and> map_of (frontmatter date filename (tags_of terms tag) t) ''tags''
        = Some (YSeq (tags_of terms tag))"
  by (simp add: tags_of_def frontmatter_def kind_post_def)

text \<open>
  Claim C5: the \<^verbatim>\<open>tags\<close> of the front matter are the category terms of the post in source
  order with the term that marks the entry as a post removed and the tag of the user
  appended: the terms (marker, travel) and the tag legacy-blogger give
  (travel, legacy-blogger). The script does not do so for the marker that a Blogger
  export carries. That term is \<^verbatim>\<open>http://schemas.google.com/blogger/2008/kind#post\<close>, as in
  \<open>sample_post\<close>; line 115 compares with \<^verbatim>\<open>https://schemas.google.com/blogger/2008/kind#post\<close>,
  which no entry of an export has as a term. The comparison holds for no term of the
  post below, and its marker is written among the tags, in front of travel and
  legacy-blogger. Only a term spelled like the literal of line 115 is removed.
\<close>

theorem tags_of_keeps_blogger_marker:
  "tags sample_post = Some [''http://schemas.google.com/blogger/2008/kind#post'', ''travel'']
   \<and> classify sample_post = Inr Post
   \<and> tags_of [''http://schemas.google.com/blogger/2008/kind#post'', ''travel''] ''legacy-blogger''
       = [''http://schemas.google.com/blogger/2008/kind#post'', ''travel'', ''legacy-blogger'']
   \<and> tags_of [''http://schemas.google.com/blogger/2008/kind#post'', ''travel''] ''legacy-blogger''
       \<noteq> [''travel'', ''legacy-blogger'']
   \<and> map_of (frontmatter ''2010-05-01T08:00:00Z'' ''2010-05-my-post.md''
         (tags_of [''http://schemas.google.com/blogger/2008/kind#post'', ''travel'']
            ''legacy-blogger'') ''My post'') ''tags''
       = Some (YSeq [''http://schemas.google.com/blogger/2008/kind#post'', ''travel'',
            ''legacy-blogger''])
   \<and> tags_of [''https://schemas.google.com/blogger/2008/kind#post'', ''travel''] ''legacy-blogger''
       = [''travel'', ''legacy-blogger'']"
  by (simp add: tags_of_def frontmatter_def kind_post_def sample_post_def classify_def
      bind_def getattr_def getitem_def category_def)

text \<open>
  Claim C3, as stated: the serialized block lists the keys in the order of the data
  model, \<open>claimed_key_order\<close>, with \<^verbatim>\<open>description\<close> last. That is the order of the
  dictionary literal; \<^verbatim>\<open>yaml.dump\<close> sorts the keys, and \<^verbatim>\<open>description\<close> comes second.
\<close>

theorem frontmatter_order_counterexample:
  "map fst (yaml_items (frontmatter ''2010-05-01T08:00:00Z'' ''2010-05-my-post.md''
       [''travel'', ''legacy-blogger''] ''My post''))
     = [''date'', ''description'', ''published'', ''slug'', ''tags'', ''time_to_read'', ''title'']
   \<and> map fst (yaml_items (frontmatter ''2010-05-01T08:00:00Z'' ''2010-05-my-post.md''
       [''travel'', ''legacy-blogger''] ''My post'')) \<noteq> claimed_key_order"
  by (simp add: yaml_items_def frontmatter_def claimed_key_order_def)

text \<open>
  Claim C3, amended: for every retained post the front matter is built with its keys in
  the order of the data model (date, published, slug, tags, time_to_read, title,
  description), and the serialized block lists them sorted by key: date, description,
  published, slug, tags, time_to_read, title.
\<close>

theorem frontmatter_keys_sorted:
  "map fst (frontmatter d f ts t) = claimed_key_order
   \<and> map fst (yaml_items (frontmatter d f ts t))
       = [''date'', ''description'', ''published'', ''slug'', ''tags'', ''time_to_read'', ''title'']
   \<and> yaml_dump node (frontmatter d f ts t)
       = ''date:'' @ node (YStr d) @ ''description:'' @ node (YStr []) @ ''published:''
         @ node (YBool True) @ ''slug:'' @ node (YStr (slug_of f)) @ ''tags:'' @ node (YSeq ts)
         @ ''time_to_read:'' @ node (YInt 5) @ ''title:'' @ node (YStr t)"
  by (simp add: yaml_dump_def yaml_items_def frontmatter_def claimed_key_order_def)

section \<open>Classification and correlation\<close>

lemma set_update_cases:
  "x \<in> set (AList.update k v al) \<Longrightarrow> x = (k, v) \<or> x \<in> set al"
  by (induction al) (auto split: if_splits)

lemma fresh_posts_update:
  assumes "fresh_posts ps" "link e = Some l"
  shows "fresh_posts (AList.update l (e, []) ps)"
  using assms unfolding fresh_posts_def
  by (auto simp: distinct_update dest!: set_update_cases)

text \<open>The first loop keeps the posts fresh, also when it ends with an exception.\<close>

lemma classify_entries_fresh:
  "classify_entries es st = (st', r) \<Longrightarrow> fresh_posts (posts st) \<Longrightarrow> fresh_posts (posts st')"
proof (induction es arbitrary: st)
  case Nil
  then show ?case by simp
next
  case (Cons e es)
  show ?case
  proof (cases "classify e")
    case (Inl err)
    then show ?thesis using Cons by (cases err) auto
  next
    case (Inr v)
    show ?thesis
    proof (cases v)
      case Discard
      then show ?thesis using Cons Inr by auto
    next
      case Comment
      then show ?thesis using Cons Inr by auto
    next
      case Post
      show ?thesis
      proof (cases "link e")
        case None
        then show ?thesis using Cons Inr Post by auto
      next
        case (Some l)
        then show ?thesis
          using Cons.IH[of "st\<lparr>posts := AList.update l (e, []) (posts st)\<rparr>"] Cons.prems Inr Post
          by (simp add: fresh_posts_update)
      qed
    qed
  qed
qed

lemma classify_entries_comments:
  "classify_entries es st = (st', None) \<Longrightarrow>
     comments st' = comments st @ filter (\<lambda>e. classify e = Inr Comment) es"
proof (induction es arbitrary: st)
  case Nil
  then show ?case by simp
next
  case (Cons e es)
  show ?case
  proof (cases "classify e")
    case (Inl err)
    then show ?thesis using Cons by (cases err) auto
  next
    case (Inr v)
    then show ?thesis using Cons
      by (cases v) (auto split: option.splits)
  qed
qed

lemma classify_entries_append:
  "classify_entries (es1 @ es2) st =
     (case classify_entries es1 st of
        (st1, None) \<Rightarrow> classify_entries es2 st1
      | (st1, Some err) \<Rightarrow> (st1, Some err))"
proof (induction es1 arbitrary: st)
  case Nil
  then show ?case by simp
next
  case (Cons e es1)
  show ?case
  proof (cases "classify e")
    case (Inl err)
    then show ?thesis using Cons by (cases err) auto
  next
    case (Inr v)
    then show ?thesis using Cons
      by (cases v) (auto split: option.splits)
  qed
qed

text \<open>The first loop ends without an exception when every entry carries a link and a
  first category term; a missing alternate reference is recovered.\<close>

lemma classify_entries_completes:
  "\<forall>e\<in>set es. link e \<noteq> None \<and> (\<exists>t ts. tags e = Some (t # ts)) \<Longrightarrow>
     snd (classify_entries es st) = None"
proof (induction es arbitrary: st)
  case Nil
  then show ?case by simp
next
  case (Cons e es)
  then obtain l t ts where e: "link e = Some l" "tags e = Some (t # ts)" by auto
  have "classify e = Inl (KeyError ''href'') \<or> (\<exists>v. classify e = Inr v)"
    using e by (cases "href e")
      (auto simp: classify_def bind_def getattr_def getitem_def category_def)
  then show ?case
  proof
    assume "classify e = Inl (KeyError ''href'')"
    then show ?thesis using Cons by simp
  next
    assume "\<exists>v. classify e = Inr v"
    then obtain v where "classify e = Inr v" by blast
    then show ?thesis using Cons e by (cases v) auto
  qed
qed

lemma map_entry_keys: "map fst (AList.map_entry k f al) = map fst al"
  by (induction al) auto

lemma attached_map_entry:
  "k \<in> fst ` set al \<Longrightarrow>
     mset (attached (AList.map_entry k (\<lambda>(e, cms). (e, cms @ [c])) al))
       = add_mset c (mset (attached al))"
  by (induction al) (auto simp: attached_def split: prod.splits)

lemma set_map_entry_cases:
  "(k', e', cms') \<in> set (AList.map_entry k (\<lambda>(e, cms). (e, cms @ [c])) al) \<Longrightarrow>
     (k', e', cms') \<in> set al
     \<or> (k' = k \<and> (\<exists>cms0. (k, e', cms0) \<in> set al \<and> cms' = cms0 @ [c]))"
  by (induction al) (auto split: if_splits prod.splits)

lemma replies_match_map_entry:
  assumes "replies_match ps" "thr_in_reply_to c = Some (Some k)"
  shows "replies_match (AList.map_entry k (\<lambda>(e, cms). (e, cms @ [c])) ps)"
  unfolding replies_match_def
proof (clarify)
  fix k' e' cms'
  assume "(k', e', cms') \<in> set (AList.map_entry k (\<lambda>(e, cms). (e, cms @ [c])) ps)"
  from set_map_entry_cases[OF this] assms
  show "link e' = Some k' \<and> (\<forall>c\<in>set cms'. thr_in_reply_to c = Some (Some k'))"
    unfolding replies_match_def by fastforce
qed

lemma orphaned_keys: "map fst ps = map fst qs \<Longrightarrow> orphaned ps = orphaned qs"
  unfolding orphaned_def fun_eq_iff by (metis set_map)

text \<open>What a complete run of the second loop has done, from any state.\<close>

lemma attach_comments_sound:
  "attach_comments cs st = (st', None) \<Longrightarrow>
     map fst (posts st') = map fst (posts st)
     \<and> comments st' = comments st
     \<and> mset (attached (posts st')) + mset (filter (orphaned (posts st)) cs)
         = mset (attached (posts st)) + mset cs
     \<and> (\<exists>ts. map title (filter (orphaned (posts st)) cs) = map Some ts
              \<and> stdout st' = stdout st @ map no_post_warning ts)
     \<and> (replies_match (posts st) \<longrightarrow> replies_match (posts st'))"
proof (induction cs arbitrary: st)
  case Nil
  then show ?case by simp
next
  case (Cons c cs)
  from Cons.prems obtain l where l: "thr_in_reply_to c = Some (Some l)"
    by (auto split: option.splits)
  show ?case
  proof (cases "l \<in> fst ` set (posts st)")
    case True
    let ?st = "st\<lparr>posts := AList.map_entry l (\<lambda>(e, cms). (e, cms @ [c])) (posts st)\<rparr>"
    have run: "attach_comments cs ?st = (st', None)" using Cons.prems l True by simp
    have keys: "map fst (posts ?st) = map fst (posts st)" by (simp add: map_entry_keys)
    have orph: "orphaned (posts ?st) = orphaned (posts st)" by (rule orphaned_keys[OF keys])
    have no: "\<not> orphaned (posts st) c" using l True by (simp add: orphaned_def)
    from Cons.IH[OF run] show ?thesis
      using keys orph no l True
      by (simp add: attached_map_entry replies_match_map_entry)
  next
    case False
    then obtain t where t: "title c = Some t" using Cons.prems l by (auto split: option.splits)
    let ?st = "st\<lparr>stdout := stdout st @ [no_post_warning t]\<rparr>"
    have run: "attach_comments cs ?st = (st', None)" using Cons.prems l False t by simp
    have yes: "orphaned (posts st) c" using l False by (simp add: orphaned_def)
    from Cons.IH[OF run] obtain ts where
      ts: "map title (filter (orphaned (posts st)) cs) = map Some ts"
          "stdout st' = stdout ?st @ map no_post_warning ts" by auto
    have "map title (filter (orphaned (posts st)) (c # cs)) = map Some (t # ts)
          \<and> stdout st' = stdout st @ map no_post_warning (t # ts)"
      using ts yes t by simp
    then have "\<exists>ts. map title (filter (orphaned (posts st)) (c # cs)) = map Some ts
          \<and> stdout st' = stdout st @ map no_post_warning ts" by blast
    with Cons.IH[OF run] show ?thesis using yes by simp
  qed
qed

text \<open>The second loop ends without an exception when every comment carries a reply
  target and a title.\<close>

lemma attach_comments_completes:
  "\<forall>c\<in>set cs. (\<exists>l. thr_in_reply_to c = Some (Some l)) \<and> title c \<noteq> None \<Longrightarrow>
     snd (attach_comments cs st) = None"
  by (induction cs arbitrary: st) (auto split: option.splits)

lemma fresh_posts_attached: "fresh_posts ps \<Longrightarrow> attached ps = [] \<and> replies_match ps"
  unfolding fresh_posts_def attached_def replies_match_def by auto

lemma distinct_if_count_le_1: "(\<And>a. count (mset xs) a \<le> 1) \<Longrightarrow> distinct xs"
proof (induction xs)
  case Nil
  then show ?case by simp
next
  case (Cons x xs)
  have "count (mset xs) x = 0" using Cons.prems[of x] by simp
  then have "x \<notin> set xs" by (simp add: count_eq_zero_iff)
  moreover have "count (mset xs) a \<le> 1" for a
  proof -
    have "count (mset xs) a \<le> count (mset (x # xs)) a" by simp
    then show ?thesis using Cons.prems[of a] by (rule le_trans)
  qed
  ultimately show ?case using Cons.IH by simp
qed

lemma distinct_submultiset:
  assumes "mset xs + M = mset ys" "distinct ys"
  shows "distinct xs"
proof (rule distinct_if_count_le_1)
  fix a
  have "count (mset xs) a \<le> count (mset ys) a"
    using assms(1) by (metis count_union le_add1)
  also have "\<dots> \<le> 1" using assms(2) by (simp add: distinct_count_atmost_1)
  finally show "count (mset xs) a \<le> 1" .
qed

text \<open>
  Claim C1: after the second loop has run to its end, the comments attached to the posts
  and the orphaned comments together are the comments that the first loop has
  collected, each of them once: the numbers add up, every orphaned comment has printed
  its warning, no comment hangs on two posts, and every attached comment replies to the
  link of the post that holds it.
\<close>

theorem comments_accounted:
  assumes "classify_entries entries \<lparr>posts = [], comments = [], stdout = []\<rparr> = (st, None)"
    and "attach_comments (comments st) st = (st', None)"
  shows "comments st = filter (\<lambda>e. classify e = Inr Comment) entries
     \<and> length (attached (posts st')) + length (filter (orphaned (posts st')) (comments st))
         = length (comments st)
     \<and> mset (attached (posts st')) + mset (filter (orphaned (posts st')) (comments st))
         = mset (comments st)
     \<and> (\<exists>ts. map title (filter (orphaned (posts st')) (comments st)) = map Some ts
              \<and> stdout st' = stdout st @ map no_post_warning ts)
     \<and> distinct (map fst (posts st'))
     \<and> (distinct (comments st) \<longrightarrow> distinct (attached (posts st')))
     \<and> (\<forall>(k, e, cms)\<in>set (posts st').
           link e = Some k \<and> (\<forall>c\<in>set cms. thr_in_reply_to c = Some (Some k)))"
proof -
  have fresh0: "fresh_posts (posts \<lparr>posts = [], comments = [], stdout = []\<rparr>)"
    by (simp add: fresh_posts_def)
  have fresh: "fresh_posts (posts st)"
    using classify_entries_fresh[OF assms(1) fresh0] .
  have cms: "comments st = filter (\<lambda>e. classify e = Inr Comment) entries"
    using classify_entries_comments[OF assms(1)] by simp
  note s = attach_comments_sound[OF assms(2)]
  have keys: "map fst (posts st') = map fst (posts st)" using s by blast
  have orph: "orphaned (posts st') = orphaned (posts st)" by (rule orphaned_keys[OF keys])
  have m: "mset (attached (posts st')) + mset (filter (orphaned (posts st')) (comments st))
         = mset (comments st)"
    using s fresh_posts_attached[OF fresh] orph by simp
  have len: "length (attached (posts st')) + length (filter (orphaned (posts st')) (comments st))
         = length (comments st)"
    using arg_cong[OF m, of size] by (simp only: size_union size_mset)
  have warn: "\<exists>ts. map title (filter (orphaned (posts st')) (comments st)) = map Some ts
              \<and> stdout st' = stdout st @ map no_post_warning ts"
    using s orph by simp
  have d: "distinct (map fst (posts st'))"
    using fresh keys by (simp add: fresh_posts_def)
  have dd: "distinct (attached (posts st'))" if "distinct (comments st)"
    using distinct_submultiset[OF m that] .
  have "replies_match (posts st')"
    using s fresh_posts_attached[OF fresh] by blast
  then have r: "\<forall>(k, e, cms)\<in>set (posts st').
           link e = Some k \<and> (\<forall>c\<in>set cms. thr_in_reply_to c = Some (Some k))"
    by (simp add: replies_match_def)
  show ?thesis using cms len m warn d dd r by blast
qed

theorem comments_accounted_witness:
  "classify_entries [sample_post, alice, stray, bob] \<lparr>posts = [], comments = [], stdout = []\<rparr>
     = (\<lparr>posts = [(''http://example.com/2010/05/my-post.html'', sample_post, [])],
         comments = [alice, stray, bob], stdout = []\<rparr>, None)
   \<and> attach_comments [alice, stray, bob]
        \<lparr>posts = [(''http://example.com/2010/05/my-post.html'', sample_post, [])],
         comments = [alice, stray, bob], stdout = []\<rparr>
     = (\<lparr>posts = [(''http://example.com/2010/05/my-post.html'', sample_post, [alice, bob])],
         comments = [alice, stray, bob], stdout = [no_post_warning ''Nice'']\<rparr>, None)
   \<and> filter (orphaned [(''http://example.com/2010/05/my-post.html'', sample_post, [alice, bob])])
        [alice, stray, bob] = [stray]
   \<and> length (attached [(''http://example.com/2010/05/my-post.html'', sample_post, [alice, bob])])
        + length [stray] = length [alice, stray, bob]"
proof -
  let ?k = "''http://example.com/2010/05/my-post.html''"
  let ?st = "\<lparr>posts = [(?k, sample_post, [])], comments = [alice, stray, bob], stdout = []\<rparr>"
  let ?st' = "\<lparr>posts = [(?k, sample_post, [alice, bob])], comments = [alice, stray, bob],
               stdout = [no_post_warning ''Nice'']\<rparr>"
  have c: "classify sample_post = Inr Post" "classify alice = Inr Comment"
    "classify stray = Inr Comment" "classify bob = Inr Comment"
    by (simp_all add: classify_def bind_def getattr_def getitem_def category_def
        sample_post_def alice_def bob_def stray_def sample_comment_def)
  have l: "link sample_post = Some ?k" by (simp add: sample_post_def)
  have 1: "classify_entries [sample_post, alice, stray, bob]
      \<lparr>posts = [], comments = [], stdout = []\<rparr> = (?st, None)"
    by (simp add: c l)
  have 2: "attach_comments (comments ?st) ?st = (?st', None)"
    by (simp add: alice_def bob_def stray_def sample_comment_def)
  have 3: "filter (orphaned (posts ?st')) (comments ?st) = [stray]"
    by (simp add: orphaned_def alice_def bob_def stray_def sample_comment_def)
  from comments_accounted[OF 1 2] have
    "length (attached (posts ?st')) + length (filter (orphaned (posts ?st')) (comments ?st))
       = length (comments ?st)" by blast
  with 1 2 3 show ?thesis by simp
qed


text \<open>
  Claim C2, as stated: rules 3 and 4 ask whether any category term contains the marker,
  which is \<open>claimed_verdict\<close>. Lines 67 and 71 test \<^verbatim>\<open>entry.category\<close>, which is the first
  term only. A post that carries the label \<^verbatim>\<open>#comments\<close> behind its kind term is a
  comment for the claim and a post for the script.
\<close>

theorem classify_counterexample:
  "classify (sample_post\<lparr>tags :=
       Some [''http://schemas.google.com/blogger/2008/kind#post'', ''#comments'']\<rparr>) = Inr Post
   \<and> claimed_verdict ''http://example.com/2010/05/my-post.html''
        ''http://www.blogger.com/profile/1''
        [''http://schemas.google.com/blogger/2008/kind#post'', ''#comments''] = Comment"
  by (simp add: classify_def bind_def getattr_def getitem_def category_def sample_post_def
      claimed_verdict_def)

text \<open>
  Claim C2, amended: for every entry that has a link, an alternate reference and at least
  one category term, the five rules are applied in order and the first match wins, rules
  3 and 4 looking at the first category term only: discard if the link contains
  \<^verbatim>\<open>tag:blogger.com\<close>; else discard if the alternate reference contains \<^verbatim>\<open>comments\<close>; else
  discard if the first term contains \<^verbatim>\<open>#settings\<close>; else comment if the first term
  contains \<^verbatim>\<open>#comment\<close>; else post.
\<close>

theorem classify_first_term:
  assumes "link e = Some l" "href e = Some h" "tags e = Some (t # ts)"
  shows "classify e = Inr
     (if py_in ''tag:blogger.com'' l then Discard
      else if py_in ''comments'' h then Discard
      else if py_in ''#settings'' t then Discard
      else if py_in ''#comment'' t then Comment
      else Post)"
  using assms by (simp add: classify_def bind_def getattr_def getitem_def category_def)

theorem classify_first_term_witness:
  "link alice = Some ''http://example.com/2010/05/my-post.html?showComment=1''
   \<and> href alice = Some ''http://www.blogger.com/profile/2''
   \<and> tags alice = Some [''http://schemas.google.com/blogger/2008/kind#comment'']
   \<and> classify alice = Inr Comment"
proof -
  have 1: "link alice = Some ''http://example.com/2010/05/my-post.html?showComment=1''"
    and 2: "href alice = Some ''http://www.blogger.com/profile/2''"
    and 3: "tags alice = Some (''http://schemas.google.com/blogger/2008/kind#comment'' # [])"
    by (simp_all add: alice_def sample_comment_def)
  from classify_first_term[OF 1 2 3] have "classify alice = Inr Comment" by simp
  with 1 2 3 show ?thesis by simp
qed


lemma keys_fwrite: "map fst (fwrite f s fs) = map fst fs"
  by (simp add: fwrite_def map_entry_keys)

lemma render_posts_abort:
  assumes "snd (render_post node fl tag so fs kv) = Some err"
  shows "render_posts node fl tag so (kv # kvs) fs
     = (fst (render_post node fl tag so fs kv), Some err)"
  using assms by (cases "render_post node fl tag so fs kv") auto

lemma keys_fopen:
  "map fst (fopen f fs) = (if f \<in> set (map fst fs) then map fst fs else map fst fs @ [f])"
  by (simp add: fopen_def update_keys)

text \<open>
  Claim C4: a failed lookup on one entry never ends the run: a message is printed, that
  entry alone is skipped, and all the entries behind it are processed, in whichever of
  the three loops the lookup fails. The script attempts this in the first loop only
  (lines 61 and 78), and there for \<^verbatim>\<open>KeyError\<close> only: the attribute accesses \<^verbatim>\<open>entry.link\<close>
  and \<^verbatim>\<open>entry.category\<close> raise \<^verbatim>\<open>AttributeError\<close>, which passes the handler, and the
  second and the third loop have no handler. In the first feed below a comment lacks
  its reply target: the second loop raises and the well-formed post is never written.
  In the second feed the first of two posts lacks its summary: the third loop raises
  with that file begun, and the second post is never written. In the third feed a
  comment has no category term: the first loop raises inside the \<^verbatim>\<open>try\<close>, and the
  well-formed post behind it is neither stored nor written. In the fourth an entry has
  no link, with the same end.
\<close>

theorem run_aborts_on_malformed_entry:
  "main plain_node (Some ''http://example.com/'')
      [sample_post, alice\<lparr>thr_in_reply_to := None\<rparr>] [] ''legacy-blogger'' True
     = \<lparr>written = [], printed = [], raised = Some (KeyError ''thr_in-reply-to'')\<rparr>
   \<and> raised (main plain_node (Some ''http://example.com/'')
        [sample_post\<lparr>summary := None\<rparr>,
         sample_post\<lparr>link := Some ''http://example.com/2010/06/second.html''\<rparr>]
        [] ''legacy-blogger'' True) = Some (KeyError ''summary'')
   \<and> map fst (written (main plain_node (Some ''http://example.com/'')
        [sample_post\<lparr>summary := None\<rparr>,
         sample_post\<lparr>link := Some ''http://example.com/2010/06/second.html''\<rparr>]
        [] ''legacy-blogger'' True)) = [''2010-05-my-post.md'']
   \<and> main plain_node (Some ''http://example.com/'')
        [alice\<lparr>tags := None\<rparr>, sample_post] [] ''legacy-blogger'' True
     = \<lparr>written = [], printed = [], raised = Some (AttributeError ''category'')\<rparr>
   \<and> main plain_node (Some ''http://example.com/'')
        [alice\<lparr>link := None\<rparr>, sample_post] [] ''legacy-blogger'' True
     = \<lparr>written = [], printed = [], raised = Some (AttributeError ''link'')\<rparr>"
proof -
  let ?k = "''http://example.com/2010/05/my-post.html''"
  let ?k2 = "''http://example.com/2010/06/second.html''"
  let ?a = "alice\<lparr>thr_in_reply_to := None\<rparr>"
  let ?p1 = "sample_post\<lparr>summary := None\<rparr>"
  let ?p2 = "sample_post\<lparr>link := Some ?k2\<rparr>"
  let ?st = "\<lparr>posts = [(?k, sample_post, [])], comments = [?a], stdout = []\<rparr>"
  let ?st2 = "\<lparr>posts = [(?k, ?p1, []), (?k2, ?p2, [])], comments = [], stdout = []\<rparr>"
  have c: "classify sample_post = Inr Post" "classify ?a = Inr Comment"
    "classify ?p1 = Inr Post" "classify ?p2 = Inr Post"
    by (simp_all add: classify_def bind_def getattr_def getitem_def category_def
        sample_post_def alice_def sample_comment_def)
  have l: "link sample_post = Some ?k" "link ?p1 = Some ?k" "link ?p2 = Some ?k2"
    by (simp_all add: sample_post_def)
  have 1: "classify_entries [sample_post, ?a] \<lparr>posts = [], comments = [], stdout = []\<rparr>
      = (?st, None)"
    by (simp add: c l)
  have 2: "attach_comments [?a] ?st = (?st, Some (KeyError ''thr_in-reply-to''))"
    by (simp add: alice_def sample_comment_def)
  have first: "main plain_node (Some ''http://example.com/'') [sample_post, ?a] []
      ''legacy-blogger'' True
     = \<lparr>written = [], printed = [], raised = Some (KeyError ''thr_in-reply-to'')\<rparr>"
    by (simp only: main_def 1 2 prod.case option.case state.select_convs)
  have 3: "classify_entries [?p1, ?p2] \<lparr>posts = [], comments = [], stdout = []\<rparr>
      = (?st2, None)"
    by (simp add: c l)
  have fn: "filename_of ''http://example.com/'' ?k = Some ''2010-05-my-post.md''"
    by (simp add: filename_of_def stripped_name_def html_to_md_def https_link_def
        replace_def strip_def isspace_def startswith_def)
  have v: "tags ?p1 = tags sample_post" "published ?p1 = Some ''2010-05-01T08:00:00Z''"
    "title ?p1 = Some ''My post''" "summary ?p1 = None"
    "tags sample_post = Some [''http://schemas.google.com/blogger/2008/kind#post'', ''travel'']"
    by (simp_all add: sample_post_def)
  let ?r = "render_post plain_node (Some ''http://example.com/'') ''legacy-blogger''
      True [] (?k, ?p1, [])"
  have s: "snd ?r = Some (KeyError ''summary'')"
    by (simp add: render_post_def fn v Let_def)
  have keys: "map fst (fst ?r) = [''2010-05-my-post.md'']"
    by (simp add: render_post_def fn v Let_def keys_fwrite keys_fopen)
  have 4: "render_posts plain_node (Some ''http://example.com/'') ''legacy-blogger'' True
      [(?k, ?p1, []), (?k2, ?p2, [])] [] = (fst ?r, Some (KeyError ''summary''))"
    by (rule render_posts_abort[OF s])
  have 5: "attach_comments [] ?st2 = (?st2, None)"
    by simp
  have second: "main plain_node (Some ''http://example.com/'') [?p1, ?p2] []
      ''legacy-blogger'' True
     = \<lparr>written = fst ?r, printed = [], raised = Some (KeyError ''summary'')\<rparr>"
    by (simp only: main_def 3 4 5 prod.case option.case state.select_convs)
  have c': "classify (alice\<lparr>tags := None\<rparr>) = Inl (AttributeError ''category'')"
    "classify (alice\<lparr>link := None\<rparr>) = Inl (AttributeError ''link'')"
    by (simp_all add: classify_def bind_def getattr_def getitem_def category_def
        alice_def sample_comment_def)
  have 6: "classify_entries [alice\<lparr>tags := None\<rparr>, sample_post]
        \<lparr>posts = [], comments = [], stdout = []\<rparr>
      = (\<lparr>posts = [], comments = [], stdout = []\<rparr>, Some (AttributeError ''category''))"
    "classify_entries [alice\<lparr>link := None\<rparr>, sample_post]
        \<lparr>posts = [], comments = [], stdout = []\<rparr>
      = (\<lparr>posts = [], comments = [], stdout = []\<rparr>, Some (AttributeError ''link''))"
    by (simp_all add: c')
  have third: "main plain_node (Some ''http://example.com/'')
        [alice\<lparr>tags := None\<rparr>, sample_post] [] ''legacy-blogger'' True
     = \<lparr>written = [], printed = [], raised = Some (AttributeError ''category'')\<rparr>"
    by (simp only: main_def 6 prod.case option.case state.select_convs)
  have fourth: "main plain_node (Some ''http://example.com/'')
        [alice\<lparr>link := None\<rparr>, sample_post] [] ''legacy-blogger'' True
     = \<lparr>written = [], printed = [], raised = Some (AttributeError ''link'')\<rparr>"
    by (simp only: main_def 6 prod.case option.case state.select_convs)
  show ?thesis
    unfolding first second third fourth using keys by simp
qed


text \<open>
  What the handler of line 78 covers. When the lookup of the key \<^verbatim>\<open>href\<close> fails on an
  entry, one message is printed, that entry alone is skipped and classification goes on
  with the entries behind it; no other \<^verbatim>\<open>KeyError\<close> arises in the first loop. An entry
  without the attribute \<^verbatim>\<open>link\<close>, or without a category term, raises \<^verbatim>\<open>AttributeError\<close>,
  which ends the first loop; a comment without its reply target ends the second loop,
  and an exception raised while a post is rendered ends the third.
\<close>

lemma only_classification_recovers:
  assumes "classify_entries es1 st = (st1, None)"
  shows "(classify e = Inl (KeyError k) \<longrightarrow>
            classify_entries (es1 @ e # es2) st
              = classify_entries es2 (st1\<lparr>stdout := stdout st1 @ [''Error: '' @ repr k]\<rparr>))
     \<and> (classify e = Inl (KeyError k) \<longleftrightarrow>
            k = ''href'' \<and> href e = None
            \<and> (\<exists>l. link e = Some l \<and> \<not> py_in ''tag:blogger.com'' l))
     \<and> (classify e = Inl (AttributeError a) \<longrightarrow>
            classify_entries (es1 @ e # es2) st = (st1, Some (AttributeError a)))
     \<and> (link e = None \<longrightarrow> classify e = Inl (AttributeError ''link''))
     \<and> (link e = Some l \<and> \<not> py_in ''tag:blogger.com'' l
          \<and> href e = Some h \<and> \<not> py_in ''comments'' h
          \<and> (tags e = None \<or> tags e = Some []) \<longrightarrow>
            classify e = Inl (AttributeError ''category''))
     \<and> (thr_in_reply_to c = None \<longrightarrow>
            attach_comments (c # cs) st2 = (st2, Some (KeyError ''thr_in-reply-to'')))
     \<and> (render_post node feed_link tag show_original fs kv = (fs', Some err) \<longrightarrow>
            render_posts node feed_link tag show_original (kv # kvs) fs = (fs', Some err))"
proof -
  have 1: "classify_entries (es1 @ e # es2) st
      = classify_entries es2 (st1\<lparr>stdout := stdout st1 @ [''Error: '' @ repr k]\<rparr>)"
    if "classify e = Inl (KeyError k)"
    using that assms by (simp add: classify_entries_append)
  have 2: "classify e = Inl (KeyError k) \<longleftrightarrow>
            k = ''href'' \<and> href e = None
            \<and> (\<exists>l. link e = Some l \<and> \<not> py_in ''tag:blogger.com'' l)"
    by (auto simp: classify_def bind_def getattr_def getitem_def category_def
        split: option.splits list.splits if_splits)
  have 3: "classify_entries (es1 @ e # es2) st = (st1, Some (AttributeError a))"
    if "classify e = Inl (AttributeError a)"
    using that assms by (simp add: classify_entries_append)
  have 4: "classify e = Inl (AttributeError ''link'')" if "link e = None"
    using that by (simp add: classify_def bind_def getattr_def)
  have 5: "classify e = Inl (AttributeError ''category'')"
    if "link e = Some l" "\<not> py_in ''tag:blogger.com'' l" "href e = Some h"
      "\<not> py_in ''comments'' h" "tags e = None \<or> tags e = Some []"
    using that by (auto simp: classify_def bind_def getattr_def getitem_def category_def)
  show ?thesis using 1 2 3 4 5 by simp
qed

lemma only_classification_recovers_example:
  "classify_entries [sample_post] \<lparr>posts = [], comments = [], stdout = []\<rparr>
     = (\<lparr>posts = [(''http://example.com/2010/05/my-post.html'', sample_post, [])],
         comments = [], stdout = []\<rparr>, None)
   \<and> classify (bob\<lparr>href := None\<rparr>) = Inl (KeyError ''href'')
   \<and> classify_entries ([sample_post] @ bob\<lparr>href := None\<rparr> # [alice])
        \<lparr>posts = [], comments = [], stdout = []\<rparr>
     = (\<lparr>posts = [(''http://example.com/2010/05/my-post.html'', sample_post, [])],
         comments = [alice], stdout = [''Error: '' @ repr ''href'']\<rparr>, None)"
proof -
  let ?st1 = "\<lparr>posts = [(''http://example.com/2010/05/my-post.html'', sample_post, [])],
         comments = [], stdout = []\<rparr>"
  have c: "classify sample_post = Inr Post" "classify alice = Inr Comment"
    "classify (bob\<lparr>href := None\<rparr>) = Inl (KeyError ''href'')"
    by (simp_all add: classify_def bind_def getattr_def getitem_def category_def
        sample_post_def alice_def bob_def sample_comment_def)
  have l: "link sample_post = Some ''http://example.com/2010/05/my-post.html''"
    by (simp add: sample_post_def)
  have 1: "classify_entries [sample_post] \<lparr>posts = [], comments = [], stdout = []\<rparr>
      = (?st1, None)"
    by (simp add: c l)
  from only_classification_recovers[OF 1, of "bob\<lparr>href := None\<rparr>" "''href''" "[alice]"] c(3)
  have "classify_entries ([sample_post] @ bob\<lparr>href := None\<rparr> # [alice])
        \<lparr>posts = [], comments = [], stdout = []\<rparr>
     = classify_entries [alice] (?st1\<lparr>stdout := stdout ?st1 @ [''Error: '' @ repr ''href'']\<rparr>)"
    by blast
  then show ?thesis using 1 c by simp
qed

section \<open>The rendered document\<close>

lemma fwrite_fwrite: "fwrite f t (fwrite f s fs) = fwrite f (s @ t) fs"
  unfolding fwrite_def by (induction fs) auto

lemma fwrite_Nil: "fwrite f [] fs = fs"
  unfolding fwrite_def by (induction fs) auto

lemma map_of_fwrite_fopen: "map_of (fwrite f s (fopen f fs)) f = Some s"
  unfolding fwrite_def fopen_def by (simp add: map_of_map_entry update_conv')

text \<open>A complete run of the loop of line 147 has appended the texts of the comments, in
  their order.\<close>

lemma write_comments_text:
  "write_comments f cs fs = (fs', None) \<Longrightarrow>
     \<exists>texts. map rendered_comment cs = map Some texts \<and> fs' = fwrite f (concat texts) fs"
proof (induction cs arbitrary: fs)
  case Nil
  then show ?case by (simp add: fwrite_Nil)
next
  case (Cons c cs)
  from Cons.prems obtain a p s where
    c: "author_detail c = Some (Some a)" "published c = Some p" "summary c = Some s"
    by (auto split: option.splits simp: Let_def)
  let ?fs = "fwrite f (comment_text a p s) fs"
  have "write_comments f cs ?fs = (fs', None)"
    using Cons.prems c by (simp add: Let_def fwrite_fwrite comment_text_def)
  from Cons.IH[OF this] obtain texts where
    "map rendered_comment cs = map Some texts" "fs' = fwrite f (concat texts) ?fs" by blast
  then have "map rendered_comment (c # cs) = map Some (comment_text a p s # texts)
      \<and> fs' = fwrite f (concat (comment_text a p s # texts)) fs"
    using c by (simp add: rendered_comment_def fwrite_fwrite)
  then show ?case by blast
qed

text \<open>A post is rendered without an exception when the feed has a link and the post and
  its comments carry the keys that are read.\<close>

lemma write_comments_completes:
  "\<forall>c\<in>set cs. rendered_comment c \<noteq> None \<Longrightarrow> snd (write_comments f cs fs) = None"
proof (induction cs arbitrary: fs)
  case Nil
  then show ?case by simp
next
  case (Cons c cs)
  then obtain a p s where
    "author_detail c = Some (Some a)" "published c = Some p" "summary c = Some s"
    by (auto simp: rendered_comment_def split: option.splits)
  then show ?case using Cons by (simp add: Let_def)
qed

lemma render_post_completes:
  assumes "tags val \<noteq> None" "published val \<noteq> None" "title val \<noteq> None" "summary val \<noteq> None"
    and "\<forall>c\<in>set cms. rendered_comment c \<noteq> None"
  shows "snd (render_post node (Some root) tag show_original fs (key, val, cms)) = None"
  using assms write_comments_completes[OF assms(5)]
  by (auto simp: render_post_def Let_def split: option.splits)

text \<open>
  Claim C8: in the document of a rendered post nothing follows the body when no comment
  is attached; otherwise the body is followed by the rule, the heading and, for each
  attached comment in the order of attachment, the line
  \<^verbatim>\<open>**author said on date**\<close> with the first ten characters of the time stamp, a
  blank line, the body of the comment as it is, and a blank line.
\<close>

theorem comments_block:
  assumes "render_post node (Some root) tag show_original fs (key, val, cms) = (fs', None)"
    and "filename_of root key = Some f"
  shows "\<exists>date terms t body texts.
           published val = Some date \<and> tags val = Some terms \<and> title val = Some t
           \<and> summary val = Some body \<and> map rendered_comment cms = map Some texts
           \<and> map_of fs' f = Some
               (''---'' @ nl @ yaml_dump node (frontmatter date f (tags_of terms tag) t)
                @ ''---'' @ nl @ nl @ (if show_original then original_note key else [])
                @ body
                @ (if cms = [] then []
                   else nl @ nl @ ''---'' @ nl @ nl @ comments_heading key (length cms)
                        @ concat texts))"
proof -
  from assms obtain date terms t body where
    v: "published val = Some date" "tags val = Some terms" "title val = Some t"
       "summary val = Some body"
    by (auto simp: render_post_def Let_def split: option.splits)
  show ?thesis
  proof (cases "cms = []")
    case True
    then have "map_of fs' f = Some
               (''---'' @ nl @ yaml_dump node (frontmatter date f (tags_of terms tag) t)
                @ ''---'' @ nl @ nl @ (if show_original then original_note key else [])
                @ body)"
      using assms v
      by (auto simp: render_post_def Let_def fwrite_fwrite map_of_fwrite_fopen)
    then show ?thesis using v True by simp
  next
    case False
    let ?pre = "''---'' @ nl @ yaml_dump node (frontmatter date f (tags_of terms tag) t)
                @ ''---'' @ nl @ nl @ (if show_original then original_note key else [])
                @ body @ nl @ nl @ ''---'' @ nl @ nl @ comments_heading key (length cms)"
    have "write_comments f cms (fwrite f ?pre (fopen f fs)) = (fs', None)"
      using assms v False
      by (auto simp: render_post_def Let_def fwrite_fwrite)
    from write_comments_text[OF this] obtain texts where
      "map rendered_comment cms = map Some texts"
      "fs' = fwrite f (concat texts) (fwrite f ?pre (fopen f fs))" by blast
    then show ?thesis using v False
      by (auto simp: fwrite_fwrite map_of_fwrite_fopen)
  qed
qed

theorem comments_block_witness:
  "snd (render_post plain_node (Some ''http://example.com/'') ''legacy-blogger'' True []
         (''http://example.com/2010/05/my-post.html'', sample_post, [alice, bob])) = None
   \<and> filename_of ''http://example.com/'' ''http://example.com/2010/05/my-post.html''
        = Some ''2010-05-my-post.md''
   \<and> (\<exists>head. map_of (fst (render_post plain_node (Some ''http://example.com/'')
         ''legacy-blogger'' True []
         (''http://example.com/2010/05/my-post.html'', sample_post, [alice, bob])))
         ''2010-05-my-post.md''
       = Some (head @ ''<p>Hello</p>'' @ nl @ nl @ ''---'' @ nl @ nl
           @ comments_heading ''http://example.com/2010/05/my-post.html'' 2
           @ ''**Alice said on 2011-01-02**'' @ nl @ nl @ ''Nice post'' @ nl @ nl
           @ ''**Bob said on 2011-03-04**'' @ nl @ nl @ ''Nice post'' @ nl @ nl))"
proof -
  let ?k = "''http://example.com/2010/05/my-post.html''"
  let ?r = "render_post plain_node (Some ''http://example.com/'') ''legacy-blogger'' True []
         (?k, sample_post, [alice, bob])"
  have fn: "filename_of ''http://example.com/'' ?k = Some ''2010-05-my-post.md''"
    by (simp add: filename_of_def stripped_name_def html_to_md_def https_link_def
        replace_def strip_def isspace_def startswith_def)
  have v: "published sample_post = Some ''2010-05-01T08:00:00Z''"
    "title sample_post = Some ''My post''" "summary sample_post = Some ''<p>Hello</p>''"
    "tags sample_post = Some [''http://schemas.google.com/blogger/2008/kind#post'', ''travel'']"
    by (simp_all add: sample_post_def)
  have w: "author_detail alice = Some (Some ''Alice'')" "published alice = Some ''2011-01-02T10:00:00Z''"
    "summary alice = Some ''Nice post''"
    "author_detail bob = Some (Some ''Bob'')" "published bob = Some ''2011-03-04T09:00:00Z''"
    "summary bob = Some ''Nice post''"
    by (simp_all add: alice_def bob_def sample_comment_def)
  have s: "snd ?r = None"
    by (simp add: render_post_def fn v w Let_def)
  have r: "?r = (fst ?r, None)"
    using s by (simp add: prod_eq_iff)
  have t: "rendered_comment alice
        = Some (''**Alice said on 2011-01-02**'' @ nl @ nl @ ''Nice post'' @ nl @ nl)"
    "rendered_comment bob
        = Some (''**Bob said on 2011-03-04**'' @ nl @ nl @ ''Nice post'' @ nl @ nl)"
    by (simp_all add: rendered_comment_def comment_text_def w)
  from comments_block[OF r fn] obtain date terms t' body texts where
    b: "summary sample_post = Some body"
    and m: "map rendered_comment [alice, bob] = map Some texts"
    and c: "map_of (fst ?r) ''2010-05-my-post.md'' = Some
               (''---'' @ nl
                @ yaml_dump plain_node
                    (frontmatter date ''2010-05-my-post.md'' (tags_of terms ''legacy-blogger'') t')
                @ ''---'' @ nl @ nl @ (if True then original_note ?k else [])
                @ body
                @ (if [alice, bob] = [] then []
                   else nl @ nl @ ''---'' @ nl @ nl @ comments_heading ?k (length [alice, bob])
                        @ concat texts))"
    by blast
  from m t have texts: "texts = [''**Alice said on 2011-01-02**'' @ nl @ nl @ ''Nice post'' @ nl @ nl,
      ''**Bob said on 2011-03-04**'' @ nl @ nl @ ''Nice post'' @ nl @ nl]"
    by (cases texts; cases "tl texts") auto
  from b v have body: "body = ''<p>Hello</p>''" by simp
  have "\<exists>head. map_of (fst ?r) ''2010-05-my-post.md''
       = Some (head @ ''<p>Hello</p>'' @ nl @ nl @ ''---'' @ nl @ nl
           @ comments_heading ?k 2
           @ ''**Alice said on 2011-01-02**'' @ nl @ nl @ ''Nice post'' @ nl @ nl
           @ ''**Bob said on 2011-03-04**'' @ nl @ nl @ ''Nice post'' @ nl @ nl)"
    unfolding c texts body
    by (rule exI[where x = "''---'' @ nl
                @ yaml_dump plain_node
                    (frontmatter date ''2010-05-my-post.md'' (tags_of terms ''legacy-blogger'') t')
                @ ''---'' @ nl @ nl @ original_note ?k"]) (simp add: numeral_2_eq_2)
  with s fn show ?thesis by blast
qed

end
